theory Spec2Isabelle
  imports Complex_Main "HOL-Library.Multiset"
begin

section \<open>Data model\<close>

text \<open>
  A swap event as the controllers keep it in \<open>rawTrades\<close>: \<open>timestamp\<close> is
  \<open>trade.timestamp.getTime()\<close>, the creation instant in UTC epoch milliseconds, and
  \<open>data\<close> holds the four transfer amounts. Each amount field stands for the number
  that \<open>parseFloat(field) || 0\<close> yields, so a missing or unparsable amount is 0
  (the volume sums read \<open>parseFloat(field || 0)\<close>, the same number for a numeric or a
  missing field; an amount that is present but not numeric, which would make the volume
  \<open>NaN\<close>, is outside this model).
  JavaScript numbers are modelled as exact reals; \<open>null\<close> is \<open>None\<close>.
  The identity fields (\<open>indexed\<close>, \<open>caller\<close>, \<open>signer\<close>, \<open>txHash\<close>) take no part
  in the aggregation and are left out.
\<close>

record swapData =
  amount0In :: real
  amount0Out :: real
  amount1In :: real
  amount1Out :: real

record trade =
  timestamp :: int
  data :: swapData

section \<open>calculatePrice\<close>

text \<open>
  \<open>calculatePrice(dataIndexed, data)\<close> is the same text in all three controllers
  (chart.js 1380-1413). \<open>basePrice\<close> is the value of the local \<open>price\<close> after the
  if / else-if; the flag is \<open>this.isInverted\<close>. The quotients are exact here; the same
  function with the quotients rounded to doubles is \<open>calculatePrice_double\<close> below.
\<close>

definition basePrice :: "swapData \<Rightarrow> real option" where
  "basePrice d =
     (if amount0Out d > 0 \<and> amount1In d > 0 then Some (amount1In d / amount0Out d)
      else if amount0In d > 0 \<and> amount1Out d > 0 then Some (amount1Out d / amount0In d)
      else None)"

definition calculatePrice :: "bool \<Rightarrow> swapData \<Rightarrow> real option" where
  "calculatePrice isInverted d =
     (case basePrice d of
        None \<Rightarrow> None
      | Some price \<Rightarrow> if isInverted then Some (1 / price) else Some price)"

section \<open>Timeframes and interval keys\<close>

text \<open>
  \<open>this.timeframes\<close> (chart.js 21-29) is a fixed table of widths in minutes and
  \<open>this.currentTimeframe\<close> is always one of its entries.
\<close>

datatype timeframe = M5 | M10 | M15 | M30 | H1 | H4 | D1

fun minutes :: "timeframe \<Rightarrow> int" where
  "minutes M5 = 5"
| "minutes M10 = 10"
| "minutes M15 = 15"
| "minutes M30 = 30"
| "minutes H1 = 60"
| "minutes H4 = 240"
| "minutes D1 = 1440"

text \<open>\<open>const intervalMs = this.currentTimeframe.minutes * 60 * 1000\<close>\<close>

definition intervalMs :: "timeframe \<Rightarrow> int" where
  "intervalMs tf = minutes tf * 60 * 1000"

text \<open>\<open>Math.floor(t / intervalMs) * intervalMs\<close>, with the division taken in the reals.\<close>

definition intervalKey :: "int \<Rightarrow> int \<Rightarrow> int" where
  "intervalKey ms t = \<lfloor>real_of_int t / real_of_int ms\<rfloor> * ms"

section \<open>Grouping trades by interval\<close>

text \<open>
  \<open>tradesByInterval\<close> is a JavaScript \<open>Map\<close> from interval key to the array of the
  trades pushed under it; an association list in insertion order. \<open>mapPush\<close> is the body
  of the grouping loop (\<open>has\<close>, \<open>set\<close>, \<open>get(key).push(trade)\<close>), and \<open>mapGet\<close> is
  \<open>tradesByInterval.get(time) || []\<close>.
\<close>

type_synonym tradeMap = "(int \<times> trade list) list"

fun mapPush :: "int \<Rightarrow> trade \<Rightarrow> tradeMap \<Rightarrow> tradeMap" where
  "mapPush key t [] = [(key, [t])]"
| "mapPush key t ((k, ts) # m) =
     (if k = key then (k, ts @ [t]) # m else (k, ts) # mapPush key t m)"

definition mapGet :: "tradeMap \<Rightarrow> int \<Rightarrow> trade list" where
  "mapGet m key = (case map_of m key of None \<Rightarrow> [] | Some ts \<Rightarrow> ts)"

definition groupByInterval :: "int \<Rightarrow> trade list \<Rightarrow> tradeMap" where
  "groupByInterval ms tradeEvents =
     foldl (\<lambda>m t. mapPush (intervalKey ms (timestamp t)) t m) [] tradeEvents"

text \<open>
  \<open>tradeEvents.sort((a, b) => a.timestamp - b.timestamp)\<close>: the array sort is stable, so
  it yields the one stable ascending arrangement, which \<open>sort_key\<close> computes.
\<close>

definition sortByTimestamp :: "trade list \<Rightarrow> trade list" where
  "sortByTimestamp tradeEvents = sort_key timestamp tradeEvents"

section \<open>Candles and volume bars\<close>

text \<open>
  The candle fields can hold \<open>null\<close> in chart.js and in the live controller, where a
  price is read from a trade without a test. The colour of a volume bar is one of three
  strings (two of them taken from the page theme); it is modelled by its role.
\<close>

record candle =
  c_time :: int
  c_open :: "real option"
  c_high :: "real option"
  c_low :: "real option"
  c_close :: "real option"
  c_tradeCount :: nat

datatype volumeColor = VolumeUp | VolumeDown | VolumeNone

record volumeBar =
  v_time :: int
  v_value :: real
  v_color :: volumeColor

record chartData =
  candles :: "candle list"
  volumes :: "volumeBar list"

text \<open>How \<open>Math.max\<close>, \<open>Math.min\<close> and \<open>>=\<close> read a value: \<open>null\<close> counts as 0.\<close>

definition toNumber :: "real option \<Rightarrow> real" where
  "toNumber v = (case v of None \<Rightarrow> 0 | Some x \<Rightarrow> x)"

text \<open>
  The body of \<open>trades.forEach\<close> inside a bucket (chart.js 1154-1161), on the triple
  \<open>(high, low, volume)\<close>.
\<close>

definition scanTrade ::
  "bool \<Rightarrow> real option \<times> real option \<times> real \<Rightarrow> trade \<Rightarrow> real option \<times> real option \<times> real" where
  "scanTrade iv acc t =
     (case acc of (high, low, volume) \<Rightarrow>
        (case calculatePrice iv (data t) of
           None \<Rightarrow> (high, low, volume)
         | Some price \<Rightarrow>
             (Some (max (toNumber high) price), Some (min (toNumber low) price),
              volume + (amount1In (data t) + amount1Out (data t)))))"

text \<open>
  The branch \<open>trades.length > 0\<close> (chart.js 1146-1180, the same text at 1344-1385 of the
  live controller): the candle and the volume bar of a bucket that holds trades. It is
  only called on a non-empty \<open>trades\<close>.
\<close>

definition tradedCandle :: "bool \<Rightarrow> int \<Rightarrow> real option \<Rightarrow> trade list \<Rightarrow> candle \<times> volumeBar" where
  "tradedCandle iv time previousClose trades =
     (let opn = (case previousClose of
                   Some p \<Rightarrow> Some p
                 | None \<Rightarrow> calculatePrice iv (data (hd trades)));
          hlv = foldl (scanTrade iv) (opn, opn, 0) trades;
          cls = calculatePrice iv (data (last trades))
      in (\<lparr>c_time = time div 1000, c_open = opn, c_high = fst hlv, c_low = fst (snd hlv),
           c_close = cls, c_tradeCount = length trades\<rparr>,
          \<lparr>v_time = time div 1000, v_value = snd (snd hlv),
           v_color = (if toNumber cls \<ge> toNumber opn then VolumeUp else VolumeDown)\<rparr>))"

text \<open>The flat candle of an empty bucket, with its zero volume bar.\<close>

definition flatCandle :: "int \<Rightarrow> real \<Rightarrow> candle \<times> volumeBar" where
  "flatCandle time p =
     (\<lparr>c_time = time div 1000, c_open = Some p, c_high = Some p, c_low = Some p,
       c_close = Some p, c_tradeCount = 0\<rparr>,
      \<lparr>v_time = time div 1000, v_value = 0, v_color = VolumeNone\<rparr>)"

section \<open>processSwapEvents of chart.js\<close>

text \<open>
  \<open>intervalTimestamps.forEach\<close> (chart.js 1142-1200), carrying \<open>previousClose\<close>; the
  result lists the pushed candles with their volume bars.
\<close>

fun walkIntervals :: "bool \<Rightarrow> tradeMap \<Rightarrow> real option \<Rightarrow> int list \<Rightarrow> (candle \<times> volumeBar) list" where
  "walkIntervals iv m previousClose [] = []"
| "walkIntervals iv m previousClose (time # rest) =
     (if mapGet m time \<noteq> [] then
        tradedCandle iv time previousClose (mapGet m time)
          # walkIntervals iv m (c_close (fst (tradedCandle iv time previousClose (mapGet m time)))) rest
      else (case previousClose of
              Some p \<Rightarrow> flatCandle time p # walkIntervals iv m previousClose rest
            | None \<Rightarrow> walkIntervals iv m previousClose rest))"

text \<open>
  chart.js 1104-1203. The timeline is the sorted list of the keys of the map, that is,
  of the buckets that hold a trade.
\<close>

definition processSwapEvents :: "timeframe \<Rightarrow> bool \<Rightarrow> trade list \<Rightarrow> chartData" where
  "processSwapEvents tf iv tradeEvents =
     (if tradeEvents = [] then \<lparr>candles = [], volumes = []\<rparr>
      else
        (let m = groupByInterval (intervalMs tf) (sortByTimestamp tradeEvents);
             intervalTimestamps = sort (map fst m);
             cvs = walkIntervals iv m None intervalTimestamps
         in \<lparr>candles = map fst cvs, volumes = map snd cvs\<rparr>))"

section \<open>processSwapEvents of the live controller\<close>

text \<open>
  The controller with live updates (unnamed/part_003, 1292-1438) has the same grouping and
  the same code for a bucket that holds trades, but walks the complete timeline
  \<open>for (time = firstInterval; time <= currentInterval; time += intervalMs)\<close>;
  \<open>now\<close> is the value of \<open>Date.now()\<close>. The loop ends because every timeframe of the
  table has a positive width.
\<close>

function completeTimeline :: "timeframe \<Rightarrow> int \<Rightarrow> int \<Rightarrow> int list" where
  "completeTimeline tf time currentInterval =
     (if time \<le> currentInterval
      then time # completeTimeline tf (time + intervalMs tf) currentInterval
      else [])"
  by pat_completeness auto
termination
proof (relation "measure (\<lambda>(tf, time, currentInterval). nat (currentInterval - time + 1))")
  show "wf (measure (\<lambda>(tf, time, currentInterval). nat (currentInterval - time + 1)))"
    by simp
next
  fix tf :: timeframe and time currentInterval :: int
  assume "time \<le> currentInterval"
  moreover have "0 < intervalMs tf"
    by (cases tf) (simp_all add: intervalMs_def)
  ultimately show "((tf, time + intervalMs tf, currentInterval), (tf, time, currentInterval))
      \<in> measure (\<lambda>(tf, time, currentInterval). nat (currentInterval - time + 1))"
    by simp
qed

declare completeTimeline.simps [simp del]

text \<open>
  The look-ahead of an empty bucket without a previous close (part_003 1406-1413): the
  price of the first trade of the first later bucket that holds trades.
\<close>

fun firstFuturePrice :: "bool \<Rightarrow> tradeMap \<Rightarrow> int list \<Rightarrow> real option" where
  "firstFuturePrice iv m [] = None"
| "firstFuturePrice iv m (futureTime # later) =
     (if mapGet m futureTime \<noteq> [] then calculatePrice iv (data (hd (mapGet m futureTime)))
      else firstFuturePrice iv m later)"

text \<open>\<open>completeTimeline.forEach\<close> (part_003 1340-1435).\<close>

fun walkTimeline ::
  "timeframe \<Rightarrow> bool \<Rightarrow> tradeMap \<Rightarrow> int \<Rightarrow> real option \<Rightarrow> int list \<Rightarrow> (candle \<times> volumeBar) list" where
  "walkTimeline tf iv m currentInterval previousClose [] = []"
| "walkTimeline tf iv m currentInterval previousClose (time # rest) =
     (if mapGet m time \<noteq> [] then
        tradedCandle iv time previousClose (mapGet m time)
          # walkTimeline tf iv m currentInterval
              (c_close (fst (tradedCandle iv time previousClose (mapGet m time)))) rest
      else (case previousClose of
              Some p \<Rightarrow> flatCandle time p # walkTimeline tf iv m currentInterval previousClose rest
            | None \<Rightarrow>
                (case firstFuturePrice iv m
                        (completeTimeline tf (time + intervalMs tf) currentInterval) of
                   Some firstPrice \<Rightarrow>
                     flatCandle time firstPrice
                       # walkTimeline tf iv m currentInterval (Some firstPrice) rest
                 | None \<Rightarrow> walkTimeline tf iv m currentInterval previousClose rest)))"

definition processSwapEvents_part003 :: "timeframe \<Rightarrow> bool \<Rightarrow> int \<Rightarrow> trade list \<Rightarrow> chartData" where
  "processSwapEvents_part003 tf iv now tradeEvents =
     (if tradeEvents = [] then \<lparr>candles = [], volumes = []\<rparr>
      else
        (let sorted = sortByTimestamp tradeEvents;
             m = groupByInterval (intervalMs tf) sorted;
             firstTradeTime = timestamp (hd sorted);
             firstInterval = intervalKey (intervalMs tf) firstTradeTime;
             currentInterval = intervalKey (intervalMs tf) now;
             cvs = walkTimeline tf iv m currentInterval None
                     (completeTimeline tf firstInterval currentInterval)
         in \<lparr>candles = map fst cvs, volumes = map snd cvs\<rparr>))"





section \<open>processSwapEvents of part_002\<close>

text \<open>
  The controller of unnamed/part_002 (759-941; it offers the 30, 60, 240 and 1440 minute
  timeframes) is given the events already sorted. It first maps them to \<open>{timestamp, price, volume}\<close>, leaving
  out those without a price; the volume is \<open>amount1In + amount1Out || 1\<close>.
\<close>

record pricedTrade =
  p_timestamp :: int
  p_price :: real
  p_volume :: real

fun pricedTrades :: "bool \<Rightarrow> trade list \<Rightarrow> pricedTrade list" where
  "pricedTrades iv [] = []"
| "pricedTrades iv (t # ts) =
     (case calculatePrice iv (data t) of
        None \<Rightarrow> pricedTrades iv ts
      | Some price \<Rightarrow>
          \<lparr>p_timestamp = timestamp t, p_price = price,
           p_volume = (if amount1In (data t) + amount1Out (data t) = 0 then 1
                       else amount1In (data t) + amount1Out (data t))\<rparr>
            # pricedTrades iv ts)"

text \<open>
  \<open>Math.max(...xs)\<close> and \<open>Math.min(...xs)\<close>; they are only applied to non-empty
  argument lists here.
\<close>

fun mathMax :: "real list \<Rightarrow> real" where
  "mathMax (x # xs) = foldl max x xs"

fun mathMin :: "real list \<Rightarrow> real" where
  "mathMin (x # xs) = foldl min x xs"

fun mathMin_int :: "int list \<Rightarrow> int" where
  "mathMin_int (x # xs) = foldl min x xs"

text \<open>
  Rounding a date to its interval (part_002 789-803): the UTC hour is kept and the UTC
  minutes are set to \<open>Math.floor(getUTCMinutes() / intervalMinutes) * intervalMinutes\<close>,
  seconds and milliseconds to 0.
\<close>

definition getUTCMinutes :: "int \<Rightarrow> int" where
  "getUTCMinutes t = (t div 60000) mod 60"

definition alignMinutes :: "int \<Rightarrow> int \<Rightarrow> int" where
  "alignMinutes intervalMinutes t =
     (t div 3600000) * 3600000
       + (\<lfloor>real_of_int (getUTCMinutes t) / real_of_int intervalMinutes\<rfloor> * intervalMinutes) * 60000"

definition upDown :: "real \<Rightarrow> real \<Rightarrow> volumeColor" where
  "upDown cls opn = (if cls \<ge> opn then VolumeUp else VolumeDown)"

text \<open>
  The loop over \<open>intervals\<close> (part_002 825-929); \<open>isFirst\<close> is \<open>i === 0\<close> and \<open>w\<close> is
  \<open>intervalMinutes * 60000\<close>.
\<close>

fun walkIntervals_part002 ::
  "int \<Rightarrow> pricedTrade list \<Rightarrow> bool \<Rightarrow> real option \<Rightarrow> int list \<Rightarrow> (candle \<times> volumeBar) list" where
  "walkIntervals_part002 w trades isFirst previousClose [] = []"
| "walkIntervals_part002 w trades isFirst previousClose (intervalStart # rest) =
     (let tradesInInterval =
            filter (\<lambda>t. p_timestamp t \<ge> intervalStart \<and> p_timestamp t < intervalStart + w) trades;
          time = intervalStart div 1000;
          totalVolume = foldl (\<lambda>sum t. sum + p_volume t) 0 tradesInInterval;
          prices = map p_price tradesInInterval
      in if isFirst \<and> tradesInInterval \<noteq> [] then
           (\<lparr>c_time = time, c_open = Some (hd prices), c_high = Some (mathMax prices),
             c_low = Some (mathMin prices), c_close = Some (last prices),
             c_tradeCount = length tradesInInterval\<rparr>,
            \<lparr>v_time = time, v_value = totalVolume, v_color = upDown (last prices) (hd prices)\<rparr>)
             # walkIntervals_part002 w trades False (Some (last prices)) rest
         else
           (case previousClose of
              None \<Rightarrow> walkIntervals_part002 w trades False None rest
            | Some p \<Rightarrow>
                if tradesInInterval \<noteq> [] then
                  (\<lparr>c_time = time, c_open = Some p, c_high = Some (mathMax (p # prices)),
                    c_low = Some (mathMin (p # prices)), c_close = Some (last prices),
                    c_tradeCount = length tradesInInterval\<rparr>,
                   \<lparr>v_time = time, v_value = totalVolume, v_color = upDown (last prices) p\<rparr>)
                    # walkIntervals_part002 w trades False (Some (last prices)) rest
                else
                  (\<lparr>c_time = time, c_open = Some p, c_high = Some p, c_low = Some p,
                    c_close = Some p, c_tradeCount = 0\<rparr>,
                   \<lparr>v_time = time, v_value = 0, v_color = VolumeNone\<rparr>)
                    # walkIntervals_part002 w trades False (Some p) rest))"

text \<open>
  part_002 759-941. With an empty list of intervals, \<open>intervals[0].toISOString()\<close> in
  the logging raises a TypeError.
\<close>

datatype error = TypeError

definition processSwapEvents_part002 ::
  "timeframe \<Rightarrow> bool \<Rightarrow> int \<Rightarrow> trade list \<Rightarrow> error + chartData" where
  "processSwapEvents_part002 tf iv now tradeEvents =
     (if tradeEvents = [] then Inr \<lparr>candles = [], volumes = []\<rparr>
      else
        (let trades = pricedTrades iv tradeEvents in
         if trades = [] then Inr \<lparr>candles = [], volumes = []\<rparr>
         else
           (let startDate = mathMin_int (map p_timestamp trades);
                endDate = alignMinutes (minutes tf) now;
                startInterval = alignMinutes (minutes tf) startDate;
                intervals = completeTimeline tf startInterval endDate
            in if intervals = [] then Inl TypeError
               else
                 (let cvs = walkIntervals_part002 (minutes tf * 60000) trades True None intervals
                  in Inr \<lparr>candles = map fst cvs, volumes = map snd cvs\<rparr>))))"

section \<open>calculatePrice in double arithmetic\<close>

text \<open>
  A JavaScript number is a double: a finite value, an infinity or \<open>NaN\<close> (the sign of a
  zero is not represented; the zeros met here are quotients of positive amounts).
  \<open>toDouble\<close> rounds a real to the nearest double, ties to even: \<open>binade\<close> finds the
  exponent \<open>e\<close> with \<open>2^e \<le> |x| < 2^(e+1)\<close>, kept within -1022 and 1023, the spacing of
  the doubles there is \<open>2^(e-52)\<close>, and a result of \<open>2^1024\<close> or more is an infinity.
  \<open>jsDivide\<close> is the operator \<open>/\<close>.
\<close>

datatype jsNumber = Num real | PosInfinity | NegInfinity | NaN

definition pow2 :: "int \<Rightarrow> real" where
  "pow2 e = (if 0 \<le> e then 2 ^ nat e else 1 / 2 ^ nat (- e))"

definition roundHalfEven :: "real \<Rightarrow> int" where
  "roundHalfEven r =
     (if r - of_int \<lfloor>r\<rfloor> < 1 / 2 then \<lfloor>r\<rfloor>
      else if r - of_int \<lfloor>r\<rfloor> > 1 / 2 then \<lfloor>r\<rfloor> + 1
      else if even \<lfloor>r\<rfloor> then \<lfloor>r\<rfloor> else \<lfloor>r\<rfloor> + 1)"

function binade :: "real \<Rightarrow> int \<Rightarrow> int" where
  "binade a e = (if 1023 \<le> e \<or> a < pow2 (e + 1) then e else binade a (e + 1))"
  by pat_completeness auto
termination
  by (relation "measure (\<lambda>(a, e). nat (1023 - e))") auto

declare binade.simps [simp del]

definition toDouble :: "real \<Rightarrow> jsNumber" where
  "toDouble x =
     (let ulp = pow2 (binade \<bar>x\<bar> (- 1022) - 52);
          y = of_int (roundHalfEven (\<bar>x\<bar> / ulp)) * ulp
      in if pow2 1024 \<le> y then (if x < 0 then NegInfinity else PosInfinity)
         else Num (if x < 0 then - y else y))"

fun jsDivide :: "jsNumber \<Rightarrow> jsNumber \<Rightarrow> jsNumber" where
  "jsDivide (Num a) (Num b) =
     (if b = 0 then (if a = 0 then NaN else if 0 < a then PosInfinity else NegInfinity)
      else toDouble (a / b))"
| "jsDivide (Num a) PosInfinity = Num 0"
| "jsDivide (Num a) NegInfinity = Num 0"
| "jsDivide PosInfinity (Num b) = (if b < 0 then NegInfinity else PosInfinity)"
| "jsDivide NegInfinity (Num b) = (if b < 0 then PosInfinity else NegInfinity)"
| "jsDivide x y = NaN"

text \<open>
  \<open>calculatePrice\<close> (chart.js 1380-1413) once more, with \<open>/\<close> as the division of
  doubles. The amounts of the record are the doubles that \<open>parseFloat\<close> returned.
\<close>

definition basePrice_double :: "swapData \<Rightarrow> jsNumber option" where
  "basePrice_double d =
     (if amount0Out d > 0 \<and> amount1In d > 0
      then Some (jsDivide (Num (amount1In d)) (Num (amount0Out d)))
      else if amount0In d > 0 \<and> amount1Out d > 0
      then Some (jsDivide (Num (amount1Out d)) (Num (amount0In d)))
      else None)"

definition calculatePrice_double :: "bool \<Rightarrow> swapData \<Rightarrow> jsNumber option" where
  "calculatePrice_double isInverted d =
     (case basePrice_double d of
        None \<Rightarrow> None
      | Some price \<Rightarrow> if isInverted then Some (jsDivide (Num 1) price) else Some price)"

section \<open>The aggregation as a call in its environment\<close>










section \<open>Vocabulary of the properties\<close>

text \<open>
  A trade is priced when \<open>calculatePrice\<close> gives it a price (for either setting of the
  flag); \<open>tradePrice\<close> is that price and \<open>quoteVolume\<close> its quote-asset amount.
\<close>

definition priced :: "trade \<Rightarrow> bool" where
  "priced t \<longleftrightarrow> basePrice (data t) \<noteq> None"

definition tradePrice :: "bool \<Rightarrow> trade \<Rightarrow> real" where
  "tradePrice iv t = toNumber (calculatePrice iv (data t))"

definition quoteVolume :: "trade \<Rightarrow> real" where
  "quoteVolume t = amount1In (data t) + amount1Out (data t)"

definition pricedMap :: "tradeMap \<Rightarrow> bool" where
  "pricedMap m \<longleftrightarrow> (\<forall>k. list_all priced (mapGet m k))"

text \<open>The open of a bucket: the previous close when there is one, else the first trade's price.\<close>

definition bucketOpen :: "bool \<Rightarrow> real option \<Rightarrow> trade list \<Rightarrow> real" where
  "bucketOpen iv previousClose ts =
     (case previousClose of Some p \<Rightarrow> p | None \<Rightarrow> tradePrice iv (hd ts))"

definition ohlcBounds :: "candle \<Rightarrow> bool" where
  "ohlcBounds c \<longleftrightarrow>
     (\<exists>opn h l cls. c_open c = Some opn \<and> c_high c = Some h \<and> c_low c = Some l \<and>
        c_close c = Some cls \<and> l \<le> opn \<and> opn \<le> h \<and> l \<le> cls \<and> cls \<le> h)"

definition continues :: "candle \<Rightarrow> candle \<Rightarrow> bool" where
  "continues a b \<longleftrightarrow> c_close a \<noteq> None \<and> c_open b = c_close a"

definition invertedOf :: "candle \<Rightarrow> candle \<Rightarrow> bool" where
  "invertedOf ci cn \<longleftrightarrow>
     c_time ci = c_time cn \<and> c_tradeCount ci = c_tradeCount cn \<and>
     (\<exists>opn h l cls. c_open cn = Some opn \<and> c_high cn = Some h \<and> c_low cn = Some l \<and>
        c_close cn = Some cls \<and> 0 < opn \<and> 0 < h \<and> 0 < l \<and> 0 < cls \<and>
        c_open ci = Some (1 / opn) \<and> c_high ci = Some (1 / l) \<and>
        c_low ci = Some (1 / h) \<and> c_close ci = Some (1 / cls))"

definition positivePrice :: "real option \<Rightarrow> bool" where
  "positivePrice v \<longleftrightarrow> (case v of None \<Rightarrow> True | Some p \<Rightarrow> 0 < p)"

text \<open>A trade record from its timestamp and its four amounts, for the concrete inputs below.\<close>

definition mkTrade :: "int \<Rightarrow> real \<Rightarrow> real \<Rightarrow> real \<Rightarrow> real \<Rightarrow> trade" where
  "mkTrade t a0In a0Out a1In a1Out =
     \<lparr>timestamp = t,
      data = \<lparr>amount0In = a0In, amount0Out = a0Out, amount1In = a1In, amount1Out = a1Out\<rparr>\<rparr>"

section \<open>Properties of calculatePrice\<close>

lemma basePrice_pos: "basePrice d = Some b \<Longrightarrow> 0 < b"
  by (auto simp: basePrice_def split: if_splits)

lemma calculatePrice_pos: "calculatePrice iv d = Some p \<Longrightarrow> 0 < p"
  by (auto simp: calculatePrice_def split: option.splits if_splits dest: basePrice_pos)

lemma calculatePrice_defined_iff:
  "calculatePrice iv d = None \<longleftrightarrow> basePrice d = None"
  by (simp add: calculatePrice_def split: option.splits)

lemma calculatePrice_inverted:
  "calculatePrice True d = map_option (\<lambda>p. 1 / p) (calculatePrice False d)"
  by (simp add: calculatePrice_def split: option.splits)

text \<open>
  C6. The price of a trade: with \<open>amount0Out > 0\<close> and \<open>amount1In > 0\<close> the base price is
  \<open>amount1In / amount0Out\<close>; otherwise with \<open>amount0In > 0\<close> and \<open>amount1Out > 0\<close> it is
  \<open>amount1Out / amount0In\<close>; otherwise the price is undefined; under inversion a defined
  base price is returned as its reciprocal.
\<close>

theorem calculatePrice_cases:
  "calculatePrice iv d =
     (if 0 < amount0Out d \<and> 0 < amount1In d
      then Some (if iv then 1 / (amount1In d / amount0Out d) else amount1In d / amount0Out d)
      else if 0 < amount0In d \<and> 0 < amount1Out d
      then Some (if iv then 1 / (amount1Out d / amount0In d) else amount1Out d / amount0In d)
      else None)"
  by (simp add: calculatePrice_def basePrice_def)

text \<open>
  With exact quotients a base price is positive, and a price returned under inversion is
  its reciprocal.
\<close>

lemma calculatePrice_inverted_exact:
  "calculatePrice True d = Some p \<Longrightarrow>
     (\<exists>b. basePrice d = Some b \<and> 0 < b \<and> p = 1 / b \<and> 0 < p)"
  by (auto simp: calculatePrice_def split: option.splits dest: basePrice_pos)

section \<open>calculatePrice in double arithmetic: the reciprocal of an underflowed price\<close>

lemma toDouble_underflow: "toDouble (2024 / 2 ^ 1074 / 10 ^ 10) = Num 0"
  by (simp add: toDouble_def binade.simps pow2_def roundHalfEven_def Let_def)

lemma toDouble_tenth: "toDouble (1 / 10) = Num (3602879701896397 / 2 ^ 55)"
  by (simp add: toDouble_def binade.simps pow2_def roundHalfEven_def Let_def)

text \<open>
  C10. \<open>calculatePrice\<close> does not test the price against 0 before it returns
  \<open>1 / price\<close>. For \<open>amount0Out = '1e10'\<close> and \<open>amount1In = '1e-320'\<close> (parsed:
  \<open>2024 * 2^-1074\<close>) both legs are positive, their quotient rounds to the double 0, and
  the inverted price is \<open>Infinity\<close>.
\<close>

theorem calculatePrice_returns_Infinity:
  "calculatePrice_double False
      \<lparr>amount0In = 0, amount0Out = 10 ^ 10, amount1In = 2024 / 2 ^ 1074, amount1Out = 0\<rparr>
     = Some (Num 0) \<and>
   calculatePrice_double True
      \<lparr>amount0In = 0, amount0Out = 10 ^ 10, amount1In = 2024 / 2 ^ 1074, amount1Out = 0\<rparr>
     = Some PosInfinity"
  by (simp add: calculatePrice_double_def basePrice_double_def toDouble_def binade.simps pow2_def
      roundHalfEven_def Let_def)

text \<open>Whenever the rounded base price is 0, the inverted price is \<open>Infinity\<close>.\<close>

lemma calculatePrice_double_no_zero_test:
  "basePrice_double d = Some (Num 0) \<Longrightarrow> calculatePrice_double True d = Some PosInfinity"
  by (simp add: calculatePrice_double_def)

section \<open>Interval keys, grouping and sorting\<close>

lemma intervalMs_pos: "0 < intervalMs tf"
  by (cases tf) (simp_all add: intervalMs_def)


lemma intervalMs_dvd_1000: "1000 dvd intervalMs tf"
  by (simp add: intervalMs_def)

lemma intervalKey_div: "intervalKey ms t = t div ms * ms"
  by (simp add: intervalKey_def floor_divide_of_int_eq)

lemma intervalKey_bounds:
  assumes "0 < ms"
  shows "intervalKey ms t \<le> t" and "t < intervalKey ms t + ms" and "ms dvd intervalKey ms t"
proof -
  have "t = t div ms * ms + t mod ms" by simp
  moreover have "0 \<le> t mod ms" "t mod ms < ms" using assms by simp_all
  ultimately show "intervalKey ms t \<le> t" and "t < intervalKey ms t + ms"
    unfolding intervalKey_div by linarith+
  show "ms dvd intervalKey ms t" by (simp add: intervalKey_div)
qed


lemma map_of_mapPush:
  "map_of (mapPush key t m) = (map_of m)(key \<mapsto> mapGet m key @ [t])"
  by (induction m) (auto simp: mapGet_def fun_eq_iff)

lemma mapGet_mapPush:
  "mapGet (mapPush key t m) k = (if k = key then mapGet m key @ [t] else mapGet m k)"
  by (simp add: mapGet_def map_of_mapPush)

lemma mapGet_foldl_mapPush:
  "mapGet (foldl (\<lambda>m t. mapPush (f t) t m) m ts) k = mapGet m k @ filter (\<lambda>t. f t = k) ts"
  by (induction ts arbitrary: m) (auto simp: mapGet_mapPush)

lemma mapGet_Nil: "mapGet [] k = []"
  by (simp add: mapGet_def)

lemma mapGet_groupByInterval:
  "mapGet (groupByInterval ms ts) k = filter (\<lambda>t. intervalKey ms (timestamp t) = k) ts"
  by (simp add: groupByInterval_def mapGet_foldl_mapPush mapGet_Nil)

lemma keys_mapPush: "fst ` set (mapPush key t m) = insert key (fst ` set m)"
  by (simp add: dom_map_of_conv_image_fst [symmetric] map_of_mapPush)

lemma distinct_keys_mapPush: "distinct (map fst m) \<Longrightarrow> distinct (map fst (mapPush key t m))"
proof (induction m)
  case Nil then show ?case by simp
next
  case (Cons a m)
  obtain k ts where a: "a = (k, ts)" by (cases a)
  have "fst ` set (mapPush key t m) = insert key (fst ` set m)" by (rule keys_mapPush)
  with Cons a show ?case by auto
qed

lemma keys_foldl_mapPush:
  "fst ` set (foldl (\<lambda>m t. mapPush (f t) t m) m ts) = fst ` set m \<union> f ` set ts"
  by (induction ts arbitrary: m) (simp_all add: keys_mapPush)

lemma distinct_foldl_mapPush:
  "distinct (map fst m) \<Longrightarrow> distinct (map fst (foldl (\<lambda>m t. mapPush (f t) t m) m ts))"
  by (induction ts arbitrary: m) (auto simp: distinct_keys_mapPush)

lemma keys_groupByInterval:
  "fst ` set (groupByInterval ms ts) = (\<lambda>t. intervalKey ms (timestamp t)) ` set ts"
  by (simp add: groupByInterval_def keys_foldl_mapPush)

lemma distinct_keys_groupByInterval: "distinct (map fst (groupByInterval ms ts))"
  by (simp add: groupByInterval_def distinct_foldl_mapPush)


lemma sortByTimestamp_Nil_iff: "sortByTimestamp ts = [] \<longleftrightarrow> ts = []"
  by (metis sortByTimestamp_def length_sort length_0_conv)

lemma set_sortByTimestamp: "set (sortByTimestamp ts) = set ts"
  by (simp add: sortByTimestamp_def)

lemma hd_sortByTimestamp:
  assumes "ts \<noteq> []"
  shows "timestamp (hd (sortByTimestamp ts)) = Min (timestamp ` set ts)"
proof -
  let ?s = "sortByTimestamp ts"
  have ne: "?s \<noteq> []" using assms by (simp add: sortByTimestamp_Nil_iff)
  have sorted: "sorted (map timestamp ?s)" by (simp add: sortByTimestamp_def)
  have set: "set ?s = set ts" by (rule set_sortByTimestamp)
  obtain x xs where s: "?s = x # xs" using ne by (cases ?s) auto
  have "\<forall>y\<in>set ?s. timestamp x \<le> timestamp y"
    using sorted unfolding s by auto
  then have "Min (timestamp ` set ts) = timestamp x"
    unfolding set [symmetric] using s by (intro Min_eqI) auto
  then show ?thesis by (simp add: s)
qed


lemma first_bucket_nonempty:
  assumes "ts \<noteq> []"
  shows "mapGet (groupByInterval ms (sortByTimestamp ts))
           (intervalKey ms (timestamp (hd (sortByTimestamp ts)))) \<noteq> []"
proof -
  have "hd (sortByTimestamp ts) \<in> set (sortByTimestamp ts)"
    using assms by (simp add: sortByTimestamp_Nil_iff)
  then show ?thesis
    by (auto simp: mapGet_groupByInterval filter_empty_conv)
qed




section \<open>The candle of one bucket\<close>

lemma priced_calculatePrice: "priced t \<Longrightarrow> calculatePrice iv (data t) = Some (tradePrice iv t)"
  by (auto simp: priced_def tradePrice_def toNumber_def calculatePrice_def split: option.splits)

lemma tradePrice_pos: "priced t \<Longrightarrow> 0 < tradePrice iv t"
  using calculatePrice_pos priced_calculatePrice by blast

lemma tradePrice_inverted: "priced t \<Longrightarrow> tradePrice True t = 1 / tradePrice False t"
  by (auto simp: priced_def tradePrice_def toNumber_def calculatePrice_def split: option.splits)

lemma scanTrade_priced:
  "priced t \<Longrightarrow> scanTrade iv (Some h, Some l, v) t
     = (Some (max h (tradePrice iv t)), Some (min l (tradePrice iv t)), v + quoteVolume t)"
  by (simp add: scanTrade_def priced_calculatePrice toNumber_def quoteVolume_def)

text \<open>An unpriced trade leaves the running high, low and volume of its bucket as they are.\<close>

lemma scanTrade_unpriced: "\<not> priced t \<Longrightarrow> scanTrade iv acc t = acc"
  by (cases acc) (simp add: scanTrade_def priced_def calculatePrice_def)

lemma foldl_scanTrade_priced:
  "list_all priced ts \<Longrightarrow>
   foldl (scanTrade iv) (Some h, Some l, v) ts
     = (Some (fold max (map (tradePrice iv) ts) h), Some (fold min (map (tradePrice iv) ts) l),
        v + sum_list (map quoteVolume ts))"
proof (induction ts arbitrary: h l v)
  case Nil
  then show ?case by simp
next
  case (Cons t ts)
  then have t: "priced t" and ts: "list_all priced ts" by simp_all
  show ?case
    by (simp add: scanTrade_priced [OF t] Cons.IH [OF ts] max.commute min.commute add.assoc)
qed

lemma fold_max_Max: "fold max ps (h::real) = Max (insert h (set ps))"
  using Max.set_eq_fold [of h ps] by simp

lemma fold_min_Min: "fold min ps (l::real) = Min (insert l (set ps))"
  using Min.set_eq_fold [of l ps] by simp

lemma tradedCandle_priced:
  assumes "list_all priced ts" and "ts \<noteq> []"
  shows "fst (tradedCandle iv time prev ts) =
     \<lparr>c_time = time div 1000,
      c_open = Some (bucketOpen iv prev ts),
      c_high = Some (Max (insert (bucketOpen iv prev ts) (tradePrice iv ` set ts))),
      c_low = Some (Min (insert (bucketOpen iv prev ts) (tradePrice iv ` set ts))),
      c_close = Some (tradePrice iv (last ts)),
      c_tradeCount = length ts\<rparr>"
proof -
  from assms have hd: "priced (hd ts)" and lst: "priced (last ts)"
    by (simp_all add: list_all_iff)
  have opn: "(case prev of Some p \<Rightarrow> Some p | None \<Rightarrow> calculatePrice iv (data (hd ts)))
      = Some (bucketOpen iv prev ts)"
    by (simp add: bucketOpen_def priced_calculatePrice [OF hd] split: option.splits)
  show ?thesis
    by (simp add: tradedCandle_def opn foldl_scanTrade_priced [OF assms(1)]
        priced_calculatePrice [OF lst] fold_max_Max fold_min_Min Let_def)
qed

lemma tradedCandle_volume_priced:
  assumes "list_all priced ts" and "ts \<noteq> []"
  shows "v_time (snd (tradedCandle iv time prev ts)) = time div 1000"
    and "v_value (snd (tradedCandle iv time prev ts)) = sum_list (map quoteVolume ts)"
proof -
  from assms have hd: "priced (hd ts)"
    by (simp_all add: list_all_iff)
  have opn: "(case prev of Some p \<Rightarrow> Some p | None \<Rightarrow> calculatePrice iv (data (hd ts)))
      = Some (bucketOpen iv prev ts)"
    by (simp add: bucketOpen_def priced_calculatePrice [OF hd] split: option.splits)
  show "v_time (snd (tradedCandle iv time prev ts)) = time div 1000"
    by (simp add: tradedCandle_def Let_def)
  show "v_value (snd (tradedCandle iv time prev ts)) = sum_list (map quoteVolume ts)"
    by (simp add: tradedCandle_def opn foldl_scanTrade_priced [OF assms(1)] Let_def)
qed

lemma tradedCandle_close_priced:
  assumes "list_all priced ts" "ts \<noteq> []"
  shows "c_close (fst (tradedCandle iv time prev ts)) = Some (tradePrice iv (last ts))"
  by (simp add: tradedCandle_priced [OF assms])

lemma ohlcBounds_tradedCandle:
  assumes "list_all priced ts" and "ts \<noteq> []"
  shows "ohlcBounds (fst (tradedCandle iv time prev ts))"
proof -
  let ?o = "bucketOpen iv prev ts" and ?P = "tradePrice iv ` set ts"
  have fin: "finite (insert ?o ?P)" by simp
  have last: "tradePrice iv (last ts) \<in> insert ?o ?P" using assms(2) by simp
  have "Min (insert ?o ?P) \<le> ?o" "?o \<le> Max (insert ?o ?P)"
    "Min (insert ?o ?P) \<le> tradePrice iv (last ts)" "tradePrice iv (last ts) \<le> Max (insert ?o ?P)"
    using fin last by (simp_all only: Min_le Max_ge insertI1)
  then show ?thesis
    unfolding ohlcBounds_def tradedCandle_priced [OF assms] by simp
qed

lemma ohlcBounds_flatCandle: "ohlcBounds (fst (flatCandle time p))"
  by (simp add: ohlcBounds_def flatCandle_def)

lemma Max_reciprocal:
  fixes S :: "real set"
  assumes "finite S" "S \<noteq> {}" "\<forall>x\<in>S. 0 < x"
  shows "Max ((\<lambda>x. 1 / x) ` S) = 1 / Min S"
proof (rule Max_eqI)
  show "finite ((\<lambda>x. 1 / x) ` S)" using assms(1) by simp
next
  fix y assume "y \<in> (\<lambda>x. 1 / x) ` S"
  then obtain x where x: "x \<in> S" and y: "y = 1 / x" by auto
  have "Min S \<le> x" using assms(1) x by simp
  moreover have "0 < Min S" using assms by simp
  ultimately show "y \<le> 1 / Min S" unfolding y by (simp add: frac_le)
next
  have "Min S \<in> S" using assms by simp
  then show "1 / Min S \<in> (\<lambda>x. 1 / x) ` S" by simp
qed

lemma Min_reciprocal:
  fixes S :: "real set"
  assumes "finite S" "S \<noteq> {}" "\<forall>x\<in>S. 0 < x"
  shows "Min ((\<lambda>x. 1 / x) ` S) = 1 / Max S"
proof (rule Min_eqI)
  show "finite ((\<lambda>x. 1 / x) ` S)" using assms(1) by simp
next
  fix y assume "y \<in> (\<lambda>x. 1 / x) ` S"
  then obtain x where x: "x \<in> S" and y: "y = 1 / x" by auto
  have "x \<le> Max S" using assms(1) x by simp
  moreover have "0 < x" using assms x by simp
  ultimately show "1 / Max S \<le> y" unfolding y by (simp add: frac_le)
next
  have "Max S \<in> S" using assms by simp
  then show "1 / Max S \<in> (\<lambda>x. 1 / x) ` S" by simp
qed

lemma bucketOpen_inverted:
  assumes "list_all priced ts" "ts \<noteq> []"
  shows "bucketOpen True (map_option (\<lambda>p. 1 / p) prev) ts = 1 / bucketOpen False prev ts"
proof -
  from assms have "priced (hd ts)" by (simp add: list_all_iff)
  then show ?thesis by (cases prev) (simp_all add: bucketOpen_def tradePrice_inverted)
qed

lemma bucketOpen_pos:
  assumes "list_all priced ts" "ts \<noteq> []" "positivePrice prev"
  shows "0 < bucketOpen iv prev ts"
proof -
  from assms have "priced (hd ts)" by (simp add: list_all_iff)
  with assms(3) show ?thesis
    by (cases prev) (simp_all add: bucketOpen_def tradePrice_pos positivePrice_def)
qed

lemma tradedCandle_inverted:
  assumes pr: "list_all priced ts" and ne: "ts \<noteq> []" and pos: "positivePrice prev"
  shows "invertedOf (fst (tradedCandle True time (map_option (\<lambda>p. 1 / p) prev) ts))
                    (fst (tradedCandle False time prev ts))"
proof -
  let ?o = "bucketOpen False prev ts" and ?P = "tradePrice False ` set ts"
  let ?S = "insert ?o ?P"
  have fin: "finite ?S" and nonempty: "?S \<noteq> {}" by simp_all
  have o: "0 < ?o" by (rule bucketOpen_pos [OF pr ne pos])
  have P: "\<forall>x\<in>?P. 0 < x" using pr by (auto simp: list_all_iff tradePrice_pos)
  have S: "\<forall>x\<in>?S. 0 < x" using o P by simp
  have img: "tradePrice True ` set ts = (\<lambda>x. 1 / x) ` ?P"
    using pr by (auto simp: list_all_iff tradePrice_inverted image_iff)
  have ins: "insert (1 / ?o) (tradePrice True ` set ts) = (\<lambda>x. 1 / x) ` ?S"
    by (simp add: img)
  have last: "priced (last ts)" using pr ne by (simp add: list_all_iff)
  have "0 < Min ?S" "0 < Max ?S"
    using fin nonempty S by (meson Min_in Max_in)+
  moreover have "0 < tradePrice False (last ts)" by (rule tradePrice_pos [OF last])
  ultimately show ?thesis
    unfolding invertedOf_def tradedCandle_priced [OF pr ne] bucketOpen_inverted [OF pr ne] ins
      Max_reciprocal [OF fin nonempty S] Min_reciprocal [OF fin nonempty S]
    using o by (simp add: tradePrice_inverted [OF last])
qed

lemma flatCandle_inverted: "0 < p \<Longrightarrow> invertedOf (fst (flatCandle time (1 / p))) (fst (flatCandle time p))"
  by (simp add: invertedOf_def flatCandle_def)

lemma pricedMap_groupByInterval:
  "list_all priced ts \<Longrightarrow> pricedMap (groupByInterval ms ts)"
  by (simp add: pricedMap_def mapGet_groupByInterval list_all_iff)

lemma pricedMap_sorted_group:
  "list_all priced ts \<Longrightarrow> pricedMap (groupByInterval ms (sortByTimestamp ts))"
  by (rule pricedMap_groupByInterval) (simp add: list_all_iff set_sortByTimestamp)

lemma successively_nth:
  "successively P xs \<Longrightarrow> Suc i < length xs \<Longrightarrow> P (xs ! i) (xs ! Suc i)"
proof (induction P xs arbitrary: i rule: successively.induct)
  case (3 P x y xs)
  then show ?case by (cases i) simp_all
qed simp_all

lemmas eval_defs = processSwapEvents_def processSwapEvents_part003_def sortByTimestamp_def
  groupByInterval_def intervalMs_def intervalKey_div mapGet_def tradedCandle_def flatCandle_def
  scanTrade_def calculatePrice_def basePrice_def toNumber_def mkTrade_def Let_def
  completeTimeline.simps priced_def

section \<open>chart.js on priced trades\<close>

lemma walkIntervals_ohlcBounds:
  "pricedMap m \<Longrightarrow> \<forall>c \<in> set (map fst (walkIntervals iv m prev tline)). ohlcBounds c"
proof (induction tline arbitrary: prev)
  case Nil
  then show ?case by simp
next
  case (Cons time rest)
  from Cons.prems have pr: "list_all priced (mapGet m time)" by (simp add: pricedMap_def)
  show ?case
  proof (cases "mapGet m time = []")
    case True
    then show ?thesis
      using Cons.IH [OF Cons.prems] by (cases prev) (simp_all add: ohlcBounds_flatCandle)
  next
    case False
    then show ?thesis
      using Cons.IH [OF Cons.prems] ohlcBounds_tradedCandle [OF pr False] by simp
  qed
qed

lemma walkIntervals_continuity:
  "pricedMap m \<Longrightarrow>
   successively continues (map fst (walkIntervals iv m prev tline)) \<and>
   (\<forall>p. prev = Some p \<longrightarrow> walkIntervals iv m prev tline \<noteq> [] \<longrightarrow>
        c_open (hd (map fst (walkIntervals iv m prev tline))) = Some p)"
proof (induction tline arbitrary: prev)
  case Nil
  then show ?case by simp
next
  case (Cons time rest)
  from Cons.prems have pr: "list_all priced (mapGet m time)" by (simp add: pricedMap_def)
  show ?case
  proof (cases "mapGet m time = []")
    case True
    show ?thesis
    proof (cases prev)
      case None
      with True Cons.IH [OF Cons.prems, of None] show ?thesis by simp
    next
      case (Some p)
      with True Cons.IH [OF Cons.prems, of "Some p"] show ?thesis
        by (auto simp: successively_Cons continues_def flatCandle_def)
    qed
  next
    case False
    let ?c = "fst (tradedCandle iv time prev (mapGet m time))"
    have c: "?c = \<lparr>c_time = time div 1000,
      c_open = Some (bucketOpen iv prev (mapGet m time)),
      c_high = Some (Max (insert (bucketOpen iv prev (mapGet m time)) (tradePrice iv ` set (mapGet m time)))),
      c_low = Some (Min (insert (bucketOpen iv prev (mapGet m time)) (tradePrice iv ` set (mapGet m time)))),
      c_close = Some (tradePrice iv (last (mapGet m time))),
      c_tradeCount = length (mapGet m time)\<rparr>"
      by (rule tradedCandle_priced [OF pr False])
    have cl: "c_close ?c = Some (tradePrice iv (last (mapGet m time)))"
      and op: "c_open ?c = Some (bucketOpen iv prev (mapGet m time))"
      by (simp_all add: c)
    from False cl op Cons.IH [OF Cons.prems, of "c_close ?c"] show ?thesis
      by (auto simp: successively_Cons continues_def bucketOpen_def)
  qed
qed

lemma walkIntervals_inverted:
  "pricedMap m \<Longrightarrow> positivePrice prev \<Longrightarrow>
   list_all2 invertedOf
     (map fst (walkIntervals True m (map_option (\<lambda>p. 1 / p) prev) tline))
     (map fst (walkIntervals False m prev tline))"
proof (induction tline arbitrary: prev)
  case Nil
  then show ?case by simp
next
  case (Cons time rest)
  from Cons.prems have pr: "list_all priced (mapGet m time)" by (simp add: pricedMap_def)
  show ?case
  proof (cases "mapGet m time = []")
    case True
    show ?thesis
    proof (cases prev)
      case None
      with True Cons.IH [OF Cons.prems(1), of None] show ?thesis
        by (simp add: positivePrice_def)
    next
      case (Some p)
      with Cons.prems(2) have p: "0 < p" by (simp add: positivePrice_def)
      from Some True Cons.IH [OF Cons.prems, of] flatCandle_inverted [OF p] show ?thesis
        by simp
    qed
  next
    case False
    have last: "priced (last (mapGet m time))" using pr False by (simp add: list_all_iff)
    have cn: "c_close (fst (tradedCandle False time prev (mapGet m time)))
        = Some (tradePrice False (last (mapGet m time)))"
      by (rule tradedCandle_close_priced [OF pr False])
    have ci: "c_close (fst (tradedCandle True time (map_option (\<lambda>p. 1 / p) prev) (mapGet m time)))
        = map_option (\<lambda>p. 1 / p) (Some (tradePrice False (last (mapGet m time))))"
      by (simp add: tradedCandle_close_priced [OF pr False] tradePrice_inverted [OF last])
    have pos: "positivePrice (Some (tradePrice False (last (mapGet m time))))"
      by (simp add: positivePrice_def tradePrice_pos [OF last])
    from False tradedCandle_inverted [OF pr False Cons.prems(2)]
      Cons.IH [OF Cons.prems(1) pos] show ?thesis
      by (simp only: walkIntervals.simps if_True cn ci list.map list_all2_Cons simp_thms not_False_eq_True)
  qed
qed

text \<open>
  chart.js on priced trades: every candle after the first opens at the close of the candle
  before it, and every candle keeps its open and close between its low and high.
\<close>

lemma chart_continuity_priced:
  assumes "list_all priced tradeEvents"
    and "Suc i < length (candles (processSwapEvents tf iv tradeEvents))"
  shows "c_close (candles (processSwapEvents tf iv tradeEvents) ! i) \<noteq> None \<and>
         c_open (candles (processSwapEvents tf iv tradeEvents) ! Suc i)
           = c_close (candles (processSwapEvents tf iv tradeEvents) ! i)"
proof -
  have "successively continues (candles (processSwapEvents tf iv tradeEvents))"
    using walkIntervals_continuity [OF pricedMap_sorted_group [OF assms(1)], where iv = iv and prev = None]
    by (cases "tradeEvents = []") (simp_all add: processSwapEvents_def Let_def)
  from successively_nth [OF this assms(2)] show ?thesis
    by (simp add: continues_def)
qed

lemma chart_bounds_priced:
  assumes "list_all priced tradeEvents"
    and "c \<in> set (candles (processSwapEvents tf iv tradeEvents))"
  shows "ohlcBounds c"
proof (cases "tradeEvents = []")
  case True
  with assms(2) show ?thesis by (simp add: processSwapEvents_def)
next
  case False
  let ?m = "groupByInterval (intervalMs tf) (sortByTimestamp tradeEvents)"
  from False assms(2) have "c \<in> set (map fst (walkIntervals iv ?m None (sort (map fst ?m))))"
    by (simp add: processSwapEvents_def Let_def)
  with walkIntervals_ohlcBounds [OF pricedMap_sorted_group [OF assms(1)]]
  show ?thesis by blast
qed

lemma processSwapEvents_inverted:
  assumes "list_all priced tradeEvents"
  shows "list_all2 invertedOf (candles (processSwapEvents tf True tradeEvents))
                              (candles (processSwapEvents tf False tradeEvents))"
proof (cases "tradeEvents = []")
  case True
  then show ?thesis by (simp add: processSwapEvents_def)
next
  case False
  have "positivePrice None" by (simp add: positivePrice_def)
  from walkIntervals_inverted [OF pricedMap_sorted_group [OF assms] this]
  show ?thesis using False by (simp add: processSwapEvents_def Let_def)
qed

text \<open>
  C2. For a trade list whose trades all have a price (then a positive one), the
  aggregations of chart.js with the flag set and clear give candles for the same buckets,
  and in each bucket the inverted high is the reciprocal of the plain low and the inverted
  low the reciprocal of the plain high.
\<close>

theorem inversion_swaps_high_low:
  assumes "list_all priced tradeEvents"
  shows "length (candles (processSwapEvents tf True tradeEvents))
           = length (candles (processSwapEvents tf False tradeEvents)) \<and>
         (\<forall>i < length (candles (processSwapEvents tf False tradeEvents)).
            c_time (candles (processSwapEvents tf True tradeEvents) ! i)
              = c_time (candles (processSwapEvents tf False tradeEvents) ! i) \<and>
            (\<exists>h l. c_high (candles (processSwapEvents tf False tradeEvents) ! i) = Some h \<and>
                   c_low (candles (processSwapEvents tf False tradeEvents) ! i) = Some l \<and>
                   0 < l \<and> 0 < h \<and>
                   c_high (candles (processSwapEvents tf True tradeEvents) ! i) = Some (1 / l) \<and>
                   c_low (candles (processSwapEvents tf True tradeEvents) ! i) = Some (1 / h)))"
proof -
  let ?ci = "candles (processSwapEvents tf True tradeEvents)"
  let ?cn = "candles (processSwapEvents tf False tradeEvents)"
  have rel: "list_all2 invertedOf ?ci ?cn" by (rule processSwapEvents_inverted [OF assms])
  then have len: "length ?ci = length ?cn" by (rule list_all2_lengthD)
  have "\<And>i. i < length ?cn \<Longrightarrow> invertedOf (?ci ! i) (?cn ! i)"
    using rel len by (simp add: list_all2_nthD2)
  then show ?thesis
    unfolding invertedOf_def using len by blast
qed

theorem inversion_swaps_high_low_witness:
  "list_all priced [mkTrade 300000 0 10 100 0, mkTrade 2400000 5 0 0 60, mkTrade 4200000 0 2 30 0] \<and>
   length (candles (processSwapEvents H1 True
      [mkTrade 300000 0 10 100 0, mkTrade 2400000 5 0 0 60, mkTrade 4200000 0 2 30 0]))
     = length (candles (processSwapEvents H1 False
      [mkTrade 300000 0 10 100 0, mkTrade 2400000 5 0 0 60, mkTrade 4200000 0 2 30 0])) \<and>
   map c_high (candles (processSwapEvents H1 False
      [mkTrade 300000 0 10 100 0, mkTrade 2400000 5 0 0 60, mkTrade 4200000 0 2 30 0]))
     = [Some 12, Some 15] \<and>
   map c_low (candles (processSwapEvents H1 True
      [mkTrade 300000 0 10 100 0, mkTrade 2400000 5 0 0 60, mkTrade 4200000 0 2 30 0]))
     = [Some (1 / 12), Some (1 / 15)] \<and>
   map c_low (candles (processSwapEvents H1 False
      [mkTrade 300000 0 10 100 0, mkTrade 2400000 5 0 0 60, mkTrade 4200000 0 2 30 0]))
     = [Some 10, Some 12] \<and>
   map c_high (candles (processSwapEvents H1 True
      [mkTrade 300000 0 10 100 0, mkTrade 2400000 5 0 0 60, mkTrade 4200000 0 2 30 0]))
     = [Some (1 / 10), Some (1 / 12)]"
proof -
  let ?ts = "[mkTrade 300000 0 10 100 0, mkTrade 2400000 5 0 0 60, mkTrade 4200000 0 2 30 0]"
  have h: "list_all priced ?ts"
    by (simp add: priced_def basePrice_def mkTrade_def)
  have len: "length (candles (processSwapEvents H1 True ?ts))
      = length (candles (processSwapEvents H1 False ?ts))"
    using inversion_swaps_high_low [OF h, of H1] by (rule conjunct1)
  have "map c_high (candles (processSwapEvents H1 False ?ts)) = [Some 12, Some 15]"
    and "map c_low (candles (processSwapEvents H1 True ?ts)) = [Some (1 / 12), Some (1 / 15)]"
    and "map c_low (candles (processSwapEvents H1 False ?ts)) = [Some 10, Some 12]"
    and "map c_high (candles (processSwapEvents H1 True ?ts)) = [Some (1 / 10), Some (1 / 12)]"
    by (simp_all add: eval_defs)
  with h len show ?thesis by blast
qed

section \<open>Bucket keys of chart.js\<close>

lemma tradedCandle_time [simp]: "c_time (fst (tradedCandle iv time prev ts)) = time div 1000"
  by (simp add: tradedCandle_def Let_def)

lemma flatCandle_time [simp]: "c_time (fst (flatCandle time p)) = time div 1000"
  by (simp add: flatCandle_def)

lemma tradedCandle_vtime [simp]: "v_time (snd (tradedCandle iv time prev ts)) = time div 1000"
  by (simp add: tradedCandle_def Let_def)

lemma flatCandle_vtime [simp]: "v_time (snd (flatCandle time p)) = time div 1000"
  by (simp add: flatCandle_def)

lemma walkIntervals_times:
  "\<forall>k\<in>set tline. mapGet m k \<noteq> [] \<Longrightarrow>
   map c_time (map fst (walkIntervals iv m prev tline)) = map (\<lambda>k. k div 1000) tline"
  by (induction tline arbitrary: prev) simp_all

lemma walkIntervals_tradeCounts:
  "\<forall>k\<in>set tline. mapGet m k \<noteq> [] \<Longrightarrow>
   map c_tradeCount (map fst (walkIntervals iv m prev tline)) = map (\<lambda>k. length (mapGet m k)) tline"
  by (induction tline arbitrary: prev) (simp_all add: tradedCandle_def Let_def)

lemma chart_timeline:
  "sort (map fst (groupByInterval ms ts))
     = sorted_list_of_set ((\<lambda>t. intervalKey ms (timestamp t)) ` set ts)"
proof -
  have "sorted_list_of_set (set (map fst (groupByInterval ms ts)))
          = sort (remdups (map fst (groupByInterval ms ts)))"
    by (rule sorted_list_of_set_sort_remdups)
  also have "remdups (map fst (groupByInterval ms ts)) = map fst (groupByInterval ms ts)"
    by (simp add: distinct_keys_groupByInterval)
  finally show ?thesis by (simp add: keys_groupByInterval)
qed

text \<open>
  chart.js: the candles are those of the buckets \<open>floor(t / intervalMs) * intervalMs\<close> of
  the trades, in ascending order, and each counts the trades with that key.
\<close>

lemma chart_bucket_keys:
  "map c_time (candles (processSwapEvents tf iv tradeEvents))
     = map (\<lambda>k. k div 1000)
         (sorted_list_of_set ((\<lambda>t. intervalKey (intervalMs tf) (timestamp t)) ` set tradeEvents))"
  and "map c_tradeCount (candles (processSwapEvents tf iv tradeEvents))
     = map (\<lambda>k. length (filter (\<lambda>t. intervalKey (intervalMs tf) (timestamp t) = k) tradeEvents))
         (sorted_list_of_set ((\<lambda>t. intervalKey (intervalMs tf) (timestamp t)) ` set tradeEvents))"
proof -
  let ?m = "groupByInterval (intervalMs tf) (sortByTimestamp tradeEvents)"
  let ?K = "(\<lambda>t. intervalKey (intervalMs tf) (timestamp t)) ` set tradeEvents"
  have tl: "sort (map fst ?m) = sorted_list_of_set ?K"
    by (simp add: chart_timeline set_sortByTimestamp)
  have ne: "\<forall>k\<in>set (sorted_list_of_set ?K). mapGet ?m k \<noteq> []"
    by (auto simp: mapGet_groupByInterval filter_empty_conv set_sortByTimestamp)
  have len: "length (mapGet ?m k)
      = length (filter (\<lambda>t. intervalKey (intervalMs tf) (timestamp t) = k) tradeEvents)" for k
  proof -
    have "mset (filter (\<lambda>t. intervalKey (intervalMs tf) (timestamp t) = k) (sortByTimestamp tradeEvents))
        = mset (filter (\<lambda>t. intervalKey (intervalMs tf) (timestamp t) = k) tradeEvents)"
      by (simp add: sortByTimestamp_def)
    then show ?thesis
      unfolding mapGet_groupByInterval by (rule mset_eq_length)
  qed
  show "map c_time (candles (processSwapEvents tf iv tradeEvents))
     = map (\<lambda>k. k div 1000) (sorted_list_of_set ?K)"
    using walkIntervals_times [OF ne, of iv None]
    by (cases "tradeEvents = []") (simp_all add: processSwapEvents_def Let_def tl)
  show "map c_tradeCount (candles (processSwapEvents tf iv tradeEvents))
     = map (\<lambda>k. length (filter (\<lambda>t. intervalKey (intervalMs tf) (timestamp t) = k) tradeEvents))
         (sorted_list_of_set ?K)"
    using walkIntervals_tradeCounts [OF ne, of iv None]
    by (cases "tradeEvents = []") (simp_all add: processSwapEvents_def Let_def tl len)
qed

section \<open>Repeated calls and the environment\<close>




section \<open>chart.js on trades without a price and on sparse trades\<close>

text \<open>
  C1. With the 60-minute timeframe and priced trades at 00:05 and 02:10, chart.js emits
  the candles of 00:00 and 02:00 only: its timeline is the list of buckets that hold a
  trade, and the bucket of 01:00 is missing. The live controller, asked at 02:30, emits
  all three.
\<close>

theorem chart_skips_empty_buckets:
  "map c_time (candles (processSwapEvents H1 False
      [mkTrade 300000 0 10 100 0, mkTrade 7800000 0 2 30 0])) = [0, 7200] \<and>
   map c_time (candles (processSwapEvents_part003 H1 False 9000000
      [mkTrade 300000 0 10 100 0, mkTrade 7800000 0 2 30 0])) = [0, 3600, 7200]"
  by (simp add: eval_defs)

text \<open>
  C3. When the last trade of a bucket has no price, chart.js closes the candle with
  \<open>null\<close>, and the next candle opens at its own first trade's price: here the first candle
  closes at \<open>null\<close> and the second opens at 15.
\<close>

theorem chart_null_close_breaks_continuity:
  "candles (processSwapEvents H1 False
      [mkTrade 300000 0 10 100 0, mkTrade 2460000 0 0 0 0, mkTrade 4200000 0 2 30 0])
   = [\<lparr>c_time = 0, c_open = Some 10, c_high = Some 10, c_low = Some 10, c_close = None,
        c_tradeCount = 2\<rparr>,
      \<lparr>c_time = 3600, c_open = Some 15, c_high = Some 15, c_low = Some 15, c_close = Some 15,
        c_tradeCount = 1\<rparr>]"
  by (simp add: eval_defs)

text \<open>
  C5. chart.js does not drop a trade without a price before bucketing: such a trade is
  counted in \<open>tradeCount\<close> and, as the last trade of its bucket, it sets the close to
  \<open>null\<close>. Without it the same bucket has one trade and closes at 10.
\<close>

theorem chart_keeps_unpriced_trade:
  "\<not> priced (mkTrade 2460000 0 0 0 0) \<and>
   candles (processSwapEvents H1 False [mkTrade 300000 0 10 100 0, mkTrade 2460000 0 0 0 0])
   = [\<lparr>c_time = 0, c_open = Some 10, c_high = Some 10, c_low = Some 10, c_close = None,
        c_tradeCount = 2\<rparr>] \<and>
   candles (processSwapEvents H1 False [mkTrade 300000 0 10 100 0])
   = [\<lparr>c_time = 0, c_open = Some 10, c_high = Some 10, c_low = Some 10, c_close = Some 10,
        c_tradeCount = 1\<rparr>]"
  by (simp add: eval_defs)

text \<open>
  C9. When the last trade of a bucket has no price, chart.js closes the candle with
  \<open>null\<close> while open, high and low are 12: the close does not lie between low and high,
  also when \<open>null\<close> is read as 0, and it is no trade's price.
\<close>

theorem chart_null_close_breaks_bounds:
  "candles (processSwapEvents H1 False [mkTrade 2400000 5 0 0 60, mkTrade 2460000 0 0 0 0])
   = [\<lparr>c_time = 0, c_open = Some 12, c_high = Some 12, c_low = Some 12, c_close = None,
        c_tradeCount = 2\<rparr>] \<and>
   \<not> ohlcBounds (hd (candles (processSwapEvents H1 False
        [mkTrade 2400000 5 0 0 60, mkTrade 2460000 0 0 0 0]))) \<and>
   \<not> toNumber (c_low (hd (candles (processSwapEvents H1 False
        [mkTrade 2400000 5 0 0 60, mkTrade 2460000 0 0 0 0]))))
     \<le> toNumber (c_close (hd (candles (processSwapEvents H1 False
        [mkTrade 2400000 5 0 0 60, mkTrade 2460000 0 0 0 0]))))"
  by (simp add: eval_defs ohlcBounds_def)

text \<open>
  With the unpriced trade first in the first bucket, the open is \<open>null\<close> and
  \<open>Math.min(null, 10)\<close> makes the low 0.
\<close>

lemma chart_null_open:
  "candles (processSwapEvents H1 False [mkTrade 240000 0 0 0 0, mkTrade 300000 0 10 100 0])
   = [\<lparr>c_time = 0, c_open = None, c_high = Some 10, c_low = Some 0, c_close = Some 10,
        c_tradeCount = 2\<rparr>]"
  by (simp add: eval_defs)

section \<open>The complete timeline of the live controller\<close>

lemma completeTimeline_Nil: "b < a \<Longrightarrow> completeTimeline tf a b = []"
  by (simp add: completeTimeline.simps)

lemma completeTimeline_Cons:
  "a \<le> b \<Longrightarrow> completeTimeline tf a b = a # completeTimeline tf (a + intervalMs tf) b"
  by (subst completeTimeline.simps) simp



text \<open>The timeline in closed form: bucket \<open>i\<close> starts at \<open>a + i * intervalMs\<close>.\<close>

lemma completeTimeline_closed_form:
  "completeTimeline tf a b
     = map (\<lambda>i. a + int i * intervalMs tf) [0..<nat ((b - a) div intervalMs tf + 1)]"
proof (induction tf a b rule: completeTimeline.induct)
  case (1 tf time currentInterval)
  let ?w = "intervalMs tf"
  have w: "0 < ?w" by (rule intervalMs_pos)
  show ?case
  proof (cases "time \<le> currentInterval")
    case True
    then have nonneg: "0 \<le> (currentInterval - time) div ?w"
      using w by (simp add: pos_imp_zdiv_nonneg_iff)
    have "(currentInterval - time) div ?w = ((currentInterval - (time + ?w)) + ?w) div ?w"
      by (simp add: algebra_simps)
    also have "\<dots> = (currentInterval - (time + ?w)) div ?w + 1"
      using w by (subst div_add_self2) simp_all
    finally have step: "(currentInterval - (time + ?w)) div ?w = (currentInterval - time) div ?w - 1"
      by simp
    have n: "nat ((currentInterval - time) div ?w + 1) = Suc (nat ((currentInterval - (time + ?w)) div ?w + 1))"
      using nonneg step by simp
    show ?thesis
      unfolding completeTimeline_Cons [OF True] "1.IH" [OF True] n map_upt_Suc
      by (simp add: algebra_simps)
  next
    case False
    then have "(currentInterval - time) div ?w < 0"
      using w by (simp add: neg_imp_zdiv_neg_iff div_neg_pos_less0)
    with False show ?thesis by (simp add: completeTimeline_Nil)
  qed
qed

lemma hd_completeTimeline: "completeTimeline tf a b \<noteq> [] \<Longrightarrow> hd (completeTimeline tf a b) = a"
  by (cases "a \<le> b") (simp_all add: completeTimeline_Cons completeTimeline_Nil)

lemma walkTimeline_times_priced:
  "pricedMap m \<Longrightarrow> (prev = None \<Longrightarrow> tline \<noteq> [] \<Longrightarrow> mapGet m (hd tline) \<noteq> []) \<Longrightarrow>
   map c_time (map fst (walkTimeline tf iv m cur prev tline)) = map (\<lambda>k. k div 1000) tline \<and>
   map v_time (map snd (walkTimeline tf iv m cur prev tline)) = map (\<lambda>k. k div 1000) tline"
proof (induction tline arbitrary: prev)
  case Nil
  then show ?case by simp
next
  case (Cons time rest)
  from Cons.prems(1) have pr: "list_all priced (mapGet m time)" by (simp add: pricedMap_def)
  show ?case
  proof (cases "mapGet m time = []")
    case True
    with Cons.prems(2) obtain p where p: "prev = Some p" by (cases prev) auto
    from Cons.IH [OF Cons.prems(1), of "Some p"] True p show ?thesis by simp
  next
    case False
    have "c_close (fst (tradedCandle iv time prev (mapGet m time))) \<noteq> None"
      by (simp add: tradedCandle_close_priced [OF pr False])
    from Cons.IH [OF Cons.prems(1), of "c_close (fst (tradedCandle iv time prev (mapGet m time)))"]
      this False show ?thesis by simp
  qed
qed



lemma part003_unfold:
  "tradeEvents \<noteq> [] \<Longrightarrow>
   processSwapEvents_part003 tf iv now tradeEvents =
     \<lparr>candles = map fst (walkTimeline tf iv
          (groupByInterval (intervalMs tf) (sortByTimestamp tradeEvents))
          (intervalKey (intervalMs tf) now) None
          (completeTimeline tf
             (intervalKey (intervalMs tf) (timestamp (hd (sortByTimestamp tradeEvents))))
             (intervalKey (intervalMs tf) now))),
      volumes = map snd (walkTimeline tf iv
          (groupByInterval (intervalMs tf) (sortByTimestamp tradeEvents))
          (intervalKey (intervalMs tf) now) None
          (completeTimeline tf
             (intervalKey (intervalMs tf) (timestamp (hd (sortByTimestamp tradeEvents))))
             (intervalKey (intervalMs tf) now)))\<rparr>"
  by (simp add: processSwapEvents_part003_def Let_def)

lemma part003_times_priced:
  assumes pr: "list_all priced tradeEvents" and ne: "tradeEvents \<noteq> []"
  shows "map c_time (candles (processSwapEvents_part003 tf iv now tradeEvents))
           = map (\<lambda>k. k div 1000)
               (completeTimeline tf
                  (intervalKey (intervalMs tf) (Min (timestamp ` set tradeEvents)))
                  (intervalKey (intervalMs tf) now))"
    and "map v_time (volumes (processSwapEvents_part003 tf iv now tradeEvents))
           = map c_time (candles (processSwapEvents_part003 tf iv now tradeEvents))"
proof -
  let ?m = "groupByInterval (intervalMs tf) (sortByTimestamp tradeEvents)"
  let ?a = "intervalKey (intervalMs tf) (timestamp (hd (sortByTimestamp tradeEvents)))"
  let ?b = "intervalKey (intervalMs tf) now"
  have m: "pricedMap ?m" by (rule pricedMap_sorted_group [OF pr])
  have first: "completeTimeline tf ?a ?b \<noteq> [] \<Longrightarrow> mapGet ?m (hd (completeTimeline tf ?a ?b)) \<noteq> []"
    by (simp add: hd_completeTimeline first_bucket_nonempty [OF ne])
  from walkTimeline_times_priced [OF m, of None "completeTimeline tf ?a ?b" tf iv ?b] first
  have "map c_time (map fst (walkTimeline tf iv ?m ?b None (completeTimeline tf ?a ?b)))
          = map (\<lambda>k. k div 1000) (completeTimeline tf ?a ?b)"
    and "map v_time (map snd (walkTimeline tf iv ?m ?b None (completeTimeline tf ?a ?b)))
          = map (\<lambda>k. k div 1000) (completeTimeline tf ?a ?b)"
    by blast+
  then show "map c_time (candles (processSwapEvents_part003 tf iv now tradeEvents))
           = map (\<lambda>k. k div 1000)
               (completeTimeline tf
                  (intervalKey (intervalMs tf) (Min (timestamp ` set tradeEvents)))
                  (intervalKey (intervalMs tf) now))"
    and "map v_time (volumes (processSwapEvents_part003 tf iv now tradeEvents))
           = map c_time (candles (processSwapEvents_part003 tf iv now tradeEvents))"
    by (simp_all add: part003_unfold [OF ne] hd_sortByTimestamp [OF ne])
qed

text \<open>
  The live controller on priced trades: candle \<open>i\<close> is the bucket that starts \<open>i\<close>
  interval widths after the bucket of the earliest trade, up to the bucket of \<open>now\<close>.
\<close>

lemma part003_gap_free:
  assumes pr: "list_all priced tradeEvents" and ne: "tradeEvents \<noteq> []"
  shows "map c_time (candles (processSwapEvents_part003 tf iv now tradeEvents))
           = map (\<lambda>i. intervalKey (intervalMs tf) (Min (timestamp ` set tradeEvents)) div 1000
                        + int i * (intervalMs tf div 1000))
               [0..<nat ((intervalKey (intervalMs tf) now
                            - intervalKey (intervalMs tf) (Min (timestamp ` set tradeEvents)))
                          div intervalMs tf + 1)]"
proof -
  have "(a + int i * intervalMs tf) div 1000 = a div 1000 + int i * (intervalMs tf div 1000)"
    for a i
  proof -
    obtain q where q: "intervalMs tf = 1000 * q" using intervalMs_dvd_1000 [of tf] by (rule dvdE)
    show ?thesis by (simp add: q algebra_simps)
  qed
  then show ?thesis
    by (simp add: part003_times_priced(1) [OF pr ne] completeTimeline_closed_form)
qed




text \<open>
  Two trades with the same timestamp, handed over in either order: the close of their bucket
  is the price of the one that comes last in the given list.
\<close>

lemma part003_tie_order:
  "map c_close (candles (processSwapEvents_part003 H1 False 3300000
      [mkTrade 3000000 0 10 100 0, mkTrade 3000000 5 0 0 60])) = [Some 12] \<and>
   map c_close (candles (processSwapEvents_part003 H1 False 3300000
      [mkTrade 3000000 5 0 0 60, mkTrade 3000000 0 10 100 0])) = [Some 10]"
  by (simp add: eval_defs)

section \<open>The live controller on priced trades\<close>

lemma firstFuturePrice_inverted:
  "pricedMap m \<Longrightarrow>
   firstFuturePrice True m tline = map_option (\<lambda>p. 1 / p) (firstFuturePrice False m tline)"
proof (induction tline)
  case Nil
  then show ?case by simp
next
  case (Cons time rest)
  show ?case
  proof (cases "mapGet m time = []")
    case True
    with Cons show ?thesis by simp
  next
    case False
    from Cons.prems have "list_all priced (mapGet m time)" by (simp add: pricedMap_def)
    with False have "priced (hd (mapGet m time))" by (simp add: list_all_iff)
    with False show ?thesis
      by (simp add: priced_calculatePrice tradePrice_inverted)
  qed
qed

lemma firstFuturePrice_pos:
  "pricedMap m \<Longrightarrow> positivePrice (firstFuturePrice iv m tline)"
proof (induction tline)
  case Nil
  then show ?case by (simp add: positivePrice_def)
next
  case (Cons time rest)
  show ?case
  proof (cases "mapGet m time = []")
    case True
    with Cons show ?thesis by simp
  next
    case False
    from Cons.prems have "list_all priced (mapGet m time)" by (simp add: pricedMap_def)
    with False have "priced (hd (mapGet m time))" by (simp add: list_all_iff)
    with False show ?thesis
      by (simp add: priced_calculatePrice tradePrice_pos positivePrice_def)
  qed
qed

lemma walkTimeline_ohlcBounds:
  "pricedMap m \<Longrightarrow> \<forall>c \<in> set (map fst (walkTimeline tf iv m cur prev tline)). ohlcBounds c"
proof (induction tline arbitrary: prev)
  case Nil
  then show ?case by simp
next
  case (Cons time rest)
  from Cons.prems have pr: "list_all priced (mapGet m time)" by (simp add: pricedMap_def)
  show ?case
  proof (cases "mapGet m time = []")
    case True
    then show ?thesis
      using Cons.IH [OF Cons.prems]
      by (simp add: ohlcBounds_flatCandle split: option.splits)
  next
    case False
    then show ?thesis
      using Cons.IH [OF Cons.prems] ohlcBounds_tradedCandle [OF pr False] by simp
  qed
qed

lemma walkTimeline_continuity:
  "pricedMap m \<Longrightarrow>
   successively continues (map fst (walkTimeline tf iv m cur prev tline)) \<and>
   (\<forall>p. prev = Some p \<longrightarrow> walkTimeline tf iv m cur prev tline \<noteq> [] \<longrightarrow>
        c_open (hd (map fst (walkTimeline tf iv m cur prev tline))) = Some p)"
proof (induction tline arbitrary: prev)
  case Nil
  then show ?case by simp
next
  case (Cons time rest)
  from Cons.prems have pr: "list_all priced (mapGet m time)" by (simp add: pricedMap_def)
  show ?case
  proof (cases "mapGet m time = []")
    case True
    show ?thesis
    proof (cases prev)
      case None
      show ?thesis
      proof (cases "firstFuturePrice iv m (completeTimeline tf (time + intervalMs tf) cur)")
        case None
        with \<open>prev = None\<close> True Cons.IH [OF Cons.prems, of None] show ?thesis by simp
      next
        case (Some fp)
        with \<open>prev = None\<close> True Cons.IH [OF Cons.prems, of "Some fp"] show ?thesis
          by (auto simp: successively_Cons continues_def flatCandle_def)
      qed
    next
      case (Some p)
      with True Cons.IH [OF Cons.prems, of "Some p"] show ?thesis
        by (auto simp: successively_Cons continues_def flatCandle_def)
    qed
  next
    case False
    let ?c = "fst (tradedCandle iv time prev (mapGet m time))"
    have cl: "c_close ?c = Some (tradePrice iv (last (mapGet m time)))"
      and op: "c_open ?c = Some (bucketOpen iv prev (mapGet m time))"
      by (simp_all add: tradedCandle_priced [OF pr False])
    from False cl op Cons.IH [OF Cons.prems, of "c_close ?c"] show ?thesis
      by (auto simp: successively_Cons continues_def bucketOpen_def)
  qed
qed

lemma walkTimeline_inverted:
  "pricedMap m \<Longrightarrow> positivePrice prev \<Longrightarrow>
   list_all2 invertedOf
     (map fst (walkTimeline tf True m cur (map_option (\<lambda>p. 1 / p) prev) tline))
     (map fst (walkTimeline tf False m cur prev tline))"
proof (induction tline arbitrary: prev)
  case Nil
  then show ?case by simp
next
  case (Cons time rest)
  from Cons.prems have pr: "list_all priced (mapGet m time)" by (simp add: pricedMap_def)
  show ?case
  proof (cases "mapGet m time = []")
    case True
    show ?thesis
    proof (cases prev)
      case None
      let ?future = "completeTimeline tf (time + intervalMs tf) cur"
      have inv: "firstFuturePrice True m ?future
          = map_option (\<lambda>p. 1 / p) (firstFuturePrice False m ?future)"
        by (rule firstFuturePrice_inverted [OF Cons.prems(1)])
      have pos: "positivePrice (firstFuturePrice False m ?future)"
        by (rule firstFuturePrice_pos [OF Cons.prems(1)])
      show ?thesis
      proof (cases "firstFuturePrice False m ?future")
        case None
        with \<open>prev = None\<close> True inv Cons.IH [OF Cons.prems(1), of None] show ?thesis
          by (simp add: positivePrice_def)
      next
        case (Some fp)
        with pos have fp: "0 < fp" by (simp add: positivePrice_def)
        from Some pos have pos': "positivePrice (Some fp)" by simp
        from \<open>prev = None\<close> True inv Some Cons.IH [OF Cons.prems(1) pos']
          flatCandle_inverted [OF fp] show ?thesis
          by simp
      qed
    next
      case (Some p)
      with Cons.prems(2) have p: "0 < p" by (simp add: positivePrice_def)
      from Some True Cons.IH [OF Cons.prems] flatCandle_inverted [OF p] show ?thesis
        by simp
    qed
  next
    case False
    have last: "priced (last (mapGet m time))" using pr False by (simp add: list_all_iff)
    have cn: "c_close (fst (tradedCandle False time prev (mapGet m time)))
        = Some (tradePrice False (last (mapGet m time)))"
      by (rule tradedCandle_close_priced [OF pr False])
    have ci: "c_close (fst (tradedCandle True time (map_option (\<lambda>p. 1 / p) prev) (mapGet m time)))
        = map_option (\<lambda>p. 1 / p) (Some (tradePrice False (last (mapGet m time))))"
      by (simp add: tradedCandle_close_priced [OF pr False] tradePrice_inverted [OF last])
    have pos: "positivePrice (Some (tradePrice False (last (mapGet m time))))"
      by (simp add: positivePrice_def tradePrice_pos [OF last])
    from False tradedCandle_inverted [OF pr False Cons.prems(2)]
      Cons.IH [OF Cons.prems(1) pos] show ?thesis
      by (simp only: walkTimeline.simps if_True cn ci list.map list_all2_Cons simp_thms)
  qed
qed

lemma part003_inverted:
  assumes "list_all priced tradeEvents"
  shows "list_all2 invertedOf (candles (processSwapEvents_part003 tf True now tradeEvents))
                              (candles (processSwapEvents_part003 tf False now tradeEvents))"
proof (cases "tradeEvents = []")
  case True
  then show ?thesis by (simp add: processSwapEvents_part003_def)
next
  case False
  have "positivePrice None" by (simp add: positivePrice_def)
  from walkTimeline_inverted [OF pricedMap_sorted_group [OF assms] this]
  show ?thesis unfolding part003_unfold [OF False] by simp
qed

lemma part003_continuity_priced:
  assumes "list_all priced tradeEvents"
    and "Suc i < length (candles (processSwapEvents_part003 tf iv now tradeEvents))"
  shows "c_close (candles (processSwapEvents_part003 tf iv now tradeEvents) ! i) \<noteq> None \<and>
         c_open (candles (processSwapEvents_part003 tf iv now tradeEvents) ! Suc i)
           = c_close (candles (processSwapEvents_part003 tf iv now tradeEvents) ! i)"
proof -
  have "successively continues (candles (processSwapEvents_part003 tf iv now tradeEvents))"
  proof (cases "tradeEvents = []")
    case True
    then show ?thesis by (simp add: processSwapEvents_part003_def)
  next
    case False
    show ?thesis
      unfolding part003_unfold [OF False]
      using walkTimeline_continuity [OF pricedMap_sorted_group [OF assms(1)], where prev = None]
      by simp
  qed
  from successively_nth [OF this assms(2)] show ?thesis
    by (simp add: continues_def)
qed

lemma part003_bounds_priced:
  assumes "list_all priced tradeEvents"
    and "c \<in> set (candles (processSwapEvents_part003 tf iv now tradeEvents))"
  shows "ohlcBounds c"
proof (cases "tradeEvents = []")
  case True
  with assms(2) show ?thesis by (simp add: processSwapEvents_part003_def)
next
  case False
  let ?m = "groupByInterval (intervalMs tf) (sortByTimestamp tradeEvents)"
  let ?b = "intervalKey (intervalMs tf) now"
  let ?tl = "completeTimeline tf
      (intervalKey (intervalMs tf) (timestamp (hd (sortByTimestamp tradeEvents)))) ?b"
  from assms(2) have "c \<in> set (map fst (walkTimeline tf iv ?m ?b None ?tl))"
    unfolding part003_unfold [OF False] by simp
  with walkTimeline_ohlcBounds [OF pricedMap_sorted_group [OF assms(1)]]
  show ?thesis by blast
qed

text \<open>
  The live controller with an unpriced last trade in the first bucket, asked at 01:30: the
  close of the first candle is \<open>null\<close>, the look-ahead finds no later trade, and the
  bucket of 01:00 gets no candle.
\<close>

lemma part003_null_close_leaves_gap:
  "map c_time (candles (processSwapEvents_part003 H1 False 5400000
      [mkTrade 300000 0 10 100 0, mkTrade 2460000 0 0 0 0])) = [0]"
  by (simp add: eval_defs)

section \<open>Live merge\<close>




section \<open>The controller of part_002\<close>

lemma pricedTrades_filter: "pricedTrades iv (filter priced ts) = pricedTrades iv ts"
  by (induction ts) (auto simp: priced_def calculatePrice_def split: option.splits)

lemma pricedTrades_Nil_iff: "pricedTrades iv ts = [] \<longleftrightarrow> filter priced ts = []"
  by (induction ts) (auto simp: priced_def calculatePrice_def split: option.splits)

lemma part002_drops_unpriced:
  "processSwapEvents_part002 tf iv now (filter priced tradeEvents)
     = processSwapEvents_part002 tf iv now tradeEvents"
proof (cases "filter priced tradeEvents = []")
  case True
  then have "pricedTrades iv tradeEvents = []" by (simp add: pricedTrades_Nil_iff)
  with True show ?thesis by (simp add: processSwapEvents_part002_def)
next
  case False
  then have "tradeEvents \<noteq> []" by auto
  with False show ?thesis
    by (simp add: processSwapEvents_part002_def pricedTrades_filter)
qed

lemma hour_minute_split:
  fixes t :: int
  shows "t div 3600000 = (t div 60000) div 60"
  by (simp add: div_mult2_eq [symmetric])

lemma key_minute_split:
  fixes t m :: int
  assumes "0 < m"
  shows "t div (m * 60000) = (t div 60000) div m"
proof -
  have "t div (60000 * m) = (t div 60000) div m"
    using assms by (intro zdiv_zmult2_eq) simp
  then show ?thesis by (simp add: mult.commute)
qed

lemma minute_rounding:
  fixes q m n k :: int
  assumes "0 < m" and "n = k * m"
  shows "q div n * n + (q mod n) div m * m = q div m * m"
proof -
  have "q = q div n * n + q mod n" by simp
  then have "q div m = ((q div n * k) * m + q mod n) div m"
    by (simp add: assms(2) mult.assoc)
  also have "\<dots> = q div n * k + (q mod n) div m"
    using assms(1) by (simp only: div_mult_self3)
  finally have "q div m * m = q div n * (k * m) + (q mod n) div m * m"
    by (simp add: algebra_simps)
  then show ?thesis by (simp add: assms(2))
qed

text \<open>
  For the widths that divide the hour, rounding the UTC minutes within the hour is the
  epoch alignment \<open>floor(t / intervalMs) * intervalMs\<close>.
\<close>

lemma alignMinutes_within_hour:
  assumes "tf \<in> {M5, M10, M15, M30, H1}"
  shows "alignMinutes (minutes tf) t = intervalKey (intervalMs tf) t"
proof -
  let ?q = "t div 60000"
  have floor: "\<lfloor>real_of_int (?q mod 60) / real_of_int m\<rfloor> = (?q mod 60) div m" for m :: int
    by (simp add: floor_divide_of_int_eq)
  have "alignMinutes (minutes tf) t
      = (?q div 60 * 60 + (?q mod 60) div minutes tf * minutes tf) * 60000"
    by (simp add: alignMinutes_def getUTCMinutes_def floor hour_minute_split algebra_simps)
  also have "?q div 60 * 60 + (?q mod 60) div minutes tf * minutes tf = ?q div minutes tf * minutes tf"
  proof -
    have "0 < minutes tf" using assms by auto
    moreover have "60 = (60 div minutes tf) * minutes tf" using assms by auto
    ultimately show ?thesis by (rule minute_rounding)
  qed
  also have "?q div minutes tf * minutes tf * 60000 = intervalKey (intervalMs tf) t"
  proof -
    have "0 < minutes tf" by (cases tf) simp_all
    from key_minute_split [OF this, of t] show ?thesis
      by (simp add: intervalKey_div intervalMs_def algebra_simps)
  qed
  finally show ?thesis .
qed

text \<open>
  For the 240 and 1440 minute widths the rounded minutes are always 0: this controller
  aligns to the UTC hour.
\<close>

lemma alignMinutes_above_hour:
  assumes "tf \<in> {H4, D1}"
  shows "alignMinutes (minutes tf) t = t div 3600000 * 3600000"
proof -
  have "\<lfloor>real_of_int (t div 60000 mod 60) / real_of_int (minutes tf)\<rfloor>
      = (t div 60000 mod 60) div minutes tf"
    by (simp add: floor_divide_of_int_eq)
  moreover have "(t div 60000 mod 60) div minutes tf = 0"
    using assms by auto
  ultimately show ?thesis
    by (simp add: alignMinutes_def getUTCMinutes_def)
qed

text \<open>
  C7. With the 240-minute timeframe and one trade at 01:30 UTC, seen at 02:00, the
  controller of part_002 starts the bucket at 01:00 (3600 s): it rounds the UTC minutes within the
  hour, and \<open>floor(minutes / 240) * 240\<close> is 0. The key
  \<open>floor(t / intervalMs) * intervalMs\<close> of that trade is 0, which is where chart.js puts
  the candle.
\<close>

theorem part002_aligns_to_hour:
  "processSwapEvents_part002 H4 False 7200000 [mkTrade 5400000 0 10 100 0]
     = Inr \<lparr>candles = [\<lparr>c_time = 3600, c_open = Some 10, c_high = Some 10, c_low = Some 10,
                          c_close = Some 10, c_tradeCount = 1\<rparr>],
            volumes = [\<lparr>v_time = 3600, v_value = 100, v_color = VolumeUp\<rparr>]\<rparr> \<and>
   intervalKey (intervalMs H4) 5400000 = 0 \<and>
   map c_time (candles (processSwapEvents H4 False [mkTrade 5400000 0 10 100 0])) = [0]"
  by (simp add: eval_defs processSwapEvents_part002_def alignMinutes_def getUTCMinutes_def upDown_def)

end
